theory Spec2Isabelle
  imports Main
begin

section \<open>The URL shortener of app.py\<close>

text \<open>
  The service keeps three pieces of state: the SQL table \<open>KeyPool\<close> of short codes, the
  Mongo collection \<open>url_mapping\<close> and the \<open>lru_cache\<close> in front of \<open>get_url_mapping\<close>.
  The model is sequential: one operation runs at a time and reads the clock once, so
  every operation takes its clock reading \<open>now\<close> as an argument.

  A \<open>datetime\<close> is an integer count of microseconds; the collection gives back the
  timestamp it was given. Calls to the two stores succeed, with three exceptions, all
  in the key pool: the uniqueness conflict of a commit in \<open>allocate_key\<close>, which the
  content of the table decides; a failing commit in \<open>recycle_key\<close>, which the source
  catches; and a failing lookup in \<open>recycle_key\<close>, which it leaves outside its \<open>try\<close>.
  The last two are inputs of the model. The random source is an input as well: a
  sequence of draws, of which the state counts how many are spent. The date arithmetic
  of \<open>shorten_url\<close> has the range of Python's \<open>datetime\<close>.
\<close>

type_synonym datetime = int

subsection \<open>The key pool (SQL)\<close>

record KeyPool =
  kp_id :: nat
  short_code :: string
  used :: bool
  created_at :: datetime

datatype db_error = IntegrityError | OperationalError

text \<open>\<open>string.ascii_letters + string.digits\<close>.\<close>

definition allowed_chars :: string where
  "allowed_chars =
     ''abcdefghijklmnopqrstuvwxyzABCDEFGHIJKLMNOPQRSTUVWXYZ0123456789''"

text \<open>
  \<open>random.choices(allowed_chars, k=length)\<close> picks \<open>length\<close> positions of the alphabet.
  The random source is a sequence \<open>rnd\<close> of natural numbers, read from position \<open>pos\<close>
  on; a draw \<open>r\<close> selects position \<open>r mod 62\<close>.
\<close>

definition generate_short_code :: "(nat \<Rightarrow> nat) \<Rightarrow> nat \<Rightarrow> nat \<Rightarrow> string" where
  "generate_short_code rnd pos len =
     map (\<lambda>i. allowed_chars ! (rnd (pos + i) mod length allowed_chars)) [0..<len]"

subsection \<open>The mapping collection (Mongo) and the cache\<close>

record url_doc =
  doc_id :: nat
  doc_short_code :: string
  long_url :: string
  expires_at :: "datetime option"

type_synonym mapping = "string \<times> datetime option"

text \<open>
  \<open>cache\<close> is the \<open>lru_cache\<close> of \<open>get_url_mapping\<close>: the remembered results, the most
  recently used first. \<open>rng_pos\<close> counts the draws taken from the random source.
\<close>

record world =
  key_pool :: "KeyPool list"
  url_mapping :: "url_doc list"
  cache :: "(string \<times> mapping option) list"
  rng_pos :: nat

subsection \<open>allocate\_key and recycle\_key\<close>

text \<open>The primary key of a new row: one more than the largest in the table.\<close>

definition next_id :: "nat list \<Rightarrow> nat" where
  "next_id ids = Suc (fold max ids 0)"

text \<open>The \<open>UPDATE\<close> of the row an object stands for: by primary key.\<close>

definition set_used :: "nat \<Rightarrow> bool \<Rightarrow> KeyPool list \<Rightarrow> KeyPool list" where
  "set_used k b pool = map (\<lambda>e. if kp_id e = k then e\<lparr>used := b\<rparr> else e) pool"

text \<open>
  The commit of a new row: \<open>short_code\<close> is declared \<open>unique\<close>, so the insert of a code the
  table already holds raises \<open>IntegrityError\<close>.
\<close>

definition commit_insert :: "KeyPool \<Rightarrow> KeyPool list \<Rightarrow> db_error + KeyPool list" where
  "commit_insert e pool =
     (if short_code e \<in> set (map short_code pool) then Inl IntegrityError
      else Inr (pool @ [e]))"

text \<open>The commit of an update, on a database that answers (\<open>ok\<close>) or does not.\<close>

definition commit_update :: "bool \<Rightarrow> KeyPool list \<Rightarrow> db_error + KeyPool list" where
  "commit_update ok pending = (if ok then Inr pending else Inl OperationalError)"

text \<open>
  \<open>db.session.rollback()\<close>: the table is again as it was when the transaction began
  (\<open>s0\<close>); nothing else is restored.
\<close>

definition rollback :: "world \<Rightarrow> world \<Rightarrow> world" where
  "rollback s0 s = s\<lparr>key_pool := key_pool s0\<rparr>"

text \<open>
  \<open>KeyPool(short_code=new_code, used=False)\<close>, with the primary key and the \<open>created_at\<close>
  default that the insert gives the row.
\<close>

definition new_row :: "datetime \<Rightarrow> string \<Rightarrow> KeyPool list \<Rightarrow> KeyPool" where
  "new_row now code pool =
     \<lparr>kp_id = next_id (map kp_id pool), short_code = code, used = False, created_at = now\<rparr>"

text \<open>
  The body of the \<open>try\<close> of \<open>allocate_key\<close> (lines 48 to 58), one attempt: the code it
  returns or the exception it raises, and the state it leaves.
\<close>

definition try_allocate ::
  "(nat \<Rightarrow> nat) \<Rightarrow> datetime \<Rightarrow> world \<Rightarrow> (db_error + string) \<times> world" where
  "try_allocate rnd now s =
     (case List.find (\<lambda>e. \<not> used e) (key_pool s) of
        Some key_entry \<Rightarrow>
          (Inr (short_code key_entry),
           s\<lparr>key_pool := set_used (kp_id key_entry) True (key_pool s)\<rparr>)
      | None \<Rightarrow>
          (let new_code = generate_short_code rnd (rng_pos s) 8;
               s1 = s\<lparr>rng_pos := rng_pos s + 8\<rparr>;
               key_entry = new_row now new_code (key_pool s1)
           in case commit_insert (key_entry\<lparr>used := True\<rparr>) (key_pool s1) of
                Inl err \<Rightarrow> (Inl err, s1)
              | Inr pool \<Rightarrow> (Inr new_code, s1\<lparr>key_pool := pool\<rparr>)))"

text \<open>
  \<open>allocate_key\<close>: on \<open>IntegrityError\<close> the session is rolled back and the function calls
  itself; the draws of the failed attempt are spent. Any other exception is not caught.
  \<open>None\<close> is a call that never returns.
\<close>

partial_function (option) allocate_key ::
  "(nat \<Rightarrow> nat) \<Rightarrow> datetime \<Rightarrow> world \<Rightarrow> (db_error + (string \<times> world)) option" where
  "allocate_key rnd now s =
     (case try_allocate rnd now s of
        (Inr code, s') \<Rightarrow> Some (Inr (code, s'))
      | (Inl IntegrityError, s') \<Rightarrow> allocate_key rnd now (rollback s s')
      | (Inl OperationalError, s') \<Rightarrow> Some (Inl OperationalError))"

text \<open>
  \<open>recycle_key\<close>. The lookup of line 65 is outside the \<open>try\<close>: when the database does not
  answer it (\<open>look\<close> is false) the exception goes to the caller. The bare \<open>except\<close>
  around the commit catches every failure of the commit and rolls the session back.
\<close>

definition recycle_key :: "string \<Rightarrow> bool \<Rightarrow> bool \<Rightarrow> world \<Rightarrow> db_error + world" where
  "recycle_key code look ok s =
     (if \<not> look then Inl OperationalError
      else
        (case List.find (\<lambda>e. short_code e = code) (key_pool s) of
           None \<Rightarrow> Inr s
         | Some key_entry \<Rightarrow>
             (case commit_update ok (set_used (kp_id key_entry) False (key_pool s)) of
                Inr pool \<Rightarrow> Inr (s\<lparr>key_pool := pool\<rparr>)
              | Inl err \<Rightarrow> Inr (rollback s s))))"

subsection \<open>The collection and the cached lookup\<close>

text \<open>\<open>url_mapping.find_one({"short_code": short_code})\<close>: the first document with the code.\<close>

definition find_one :: "string \<Rightarrow> url_doc list \<Rightarrow> url_doc option" where
  "find_one code docs = List.find (\<lambda>doc. doc_short_code doc = code) docs"

text \<open>\<open>url_mapping.insert_one(doc)\<close>: the driver gives the document an \<open>_id\<close> of its own.\<close>

definition insert_one :: "string \<Rightarrow> string \<Rightarrow> datetime option \<Rightarrow> url_doc list \<Rightarrow> url_doc list" where
  "insert_one code url exp docs =
     docs @ [\<lparr>doc_id = next_id (map doc_id docs), doc_short_code = code,
              long_url = url, expires_at = exp\<rparr>]"

text \<open>\<open>url_mapping.delete_one({"_id": k})\<close>: the first document with that \<open>_id\<close> goes.\<close>

fun delete_one :: "nat \<Rightarrow> url_doc list \<Rightarrow> url_doc list" where
  "delete_one k [] = []"
| "delete_one k (doc # docs) = (if doc_id doc = k then docs else doc # delete_one k docs)"

text \<open>
  The filter \<open>{"expires_at": {"$lt": now}}\<close>: a document without a date does not match.
\<close>

definition expired_before :: "datetime \<Rightarrow> url_doc \<Rightarrow> bool" where
  "expired_before now doc = (case expires_at doc of None \<Rightarrow> False | Some t \<Rightarrow> t < now)"

definition find_expired :: "datetime \<Rightarrow> url_doc list \<Rightarrow> url_doc list" where
  "find_expired now docs = filter (expired_before now) docs"

text \<open>The function under the \<open>lru_cache\<close> decorator (lines 84 and 85).\<close>

definition get_url_mapping_wrapped :: "string \<Rightarrow> url_doc list \<Rightarrow> mapping option" where
  "get_url_mapping_wrapped code docs =
     (case find_one code docs of
        Some doc \<Rightarrow> Some (long_url doc, expires_at doc)
      | None \<Rightarrow> None)"

text \<open>
  \<open>get_url_mapping\<close> with its \<open>lru_cache(maxsize=1000)\<close>: a remembered result, \<open>None\<close>
  included, is returned without a look at the collection and becomes the most recent
  entry; a new result is remembered, and beyond 1000 entries the oldest is dropped.
\<close>

definition get_url_mapping :: "string \<Rightarrow> world \<Rightarrow> mapping option \<times> world" where
  "get_url_mapping code s =
     (case map_of (cache s) code of
        Some result \<Rightarrow>
          (result, s\<lparr>cache := (code, result) # filter (\<lambda>p. fst p \<noteq> code) (cache s)\<rparr>)
      | None \<Rightarrow>
          (let result = get_url_mapping_wrapped code (url_mapping s)
           in (result, s\<lparr>cache := take 1000 ((code, result) # cache s)\<rparr>)))"

definition invalidate_cache :: "world \<Rightarrow> world" where
  "invalidate_cache s = s\<lparr>cache := []\<rparr>"

subsection \<open>The sweep\<close>

text \<open>
  The loop of \<open>cleanup_expired_urls\<close> over \<open>expired_docs\<close>. For the \<open>i\<close>-th call of
  \<open>recycle_key\<close>, \<open>looks i\<close> tells whether its lookup answers and \<open>oks i\<close> whether its
  commit goes through. The loop has no \<open>try\<close>: an exception out of \<open>recycle_key\<close> ends it,
  and the sweep with it.
\<close>

fun sweep ::
  "(nat \<Rightarrow> bool) \<Rightarrow> (nat \<Rightarrow> bool) \<Rightarrow> nat \<Rightarrow> url_doc list \<Rightarrow> world \<Rightarrow> db_error + world" where
  "sweep looks oks i [] s = Inr s"
| "sweep looks oks i (doc # docs) s =
     (let code = doc_short_code doc;
          s1 = s\<lparr>url_mapping := delete_one (doc_id doc) (url_mapping s)\<rparr>
      in case recycle_key code (looks i) (oks i) s1 of
           Inl err \<Rightarrow> Inl err
         | Inr s2 \<Rightarrow> sweep looks oks (Suc i) docs s2)"

definition cleanup_expired_urls ::
  "datetime \<Rightarrow> (nat \<Rightarrow> bool) \<Rightarrow> (nat \<Rightarrow> bool) \<Rightarrow> world \<Rightarrow> db_error + world" where
  "cleanup_expired_urls now looks oks s =
     (let expired_docs = find_expired now (url_mapping s)
      in case sweep looks oks 0 expired_docs s of
           Inl err \<Rightarrow> Inl err
         | Inr s' \<Rightarrow> Inr (if expired_docs \<noteq> [] then invalidate_cache s' else s'))"





subsection \<open>The two routes\<close>

text \<open>
  A response is a body with its status code. \<open>expires_at.isoformat()\<close> is kept as the
  timestamp it renders.
\<close>

datatype iso8601 = Isoformat datetime

datatype body =
    JsonError string
  | Redirect string
  | JsonShortened string string iso8601

type_synonym response = "body \<times> nat"

text \<open>\<open>GET /<short_code>\<close>.\<close>

definition redirect_short_url :: "string \<Rightarrow> datetime \<Rightarrow> world \<Rightarrow> response \<times> world" where
  "redirect_short_url code now s =
     (case get_url_mapping code s of
        (None, s') \<Rightarrow> ((JsonError ''Short URL not found'', 404), s')
      | (Some (url, exp), s') \<Rightarrow>
          (if (case exp of None \<Rightarrow> False | Some t \<Rightarrow> now > t)
           then ((JsonError ''URL expired'', 410), s')
           else ((Redirect url, 302), s')))"

text \<open>
  The JSON body of \<open>POST /shorten\<close>: the two keys the handler reads, each present or not.
\<close>

record request =
  req_long_url :: "string option"
  req_expires_in_days :: "int option"

definition BASE_URL :: string where
  "BASE_URL = ''http://localhost:5000/''"

text \<open>\<open>timedelta(days=n)\<close>, in microseconds.\<close>

definition timedelta_days :: "int \<Rightarrow> int" where
  "timedelta_days n = n * 86400000000"

text \<open>
  \<open>timedelta(days=n)\<close> raises \<open>OverflowError\<close> beyond 999999999 days either way.
\<close>

definition timedelta_overflows :: "int \<Rightarrow> bool" where
  "timedelta_overflows n = (abs n > 999999999)"

text \<open>
  The first and the last instant a \<open>datetime\<close> can hold, 0001-01-01T00:00:00 and
  9999-12-31T23:59:59.999999, in microseconds from 1970-01-01T00:00:00. The sum of a
  \<open>datetime\<close> and a \<open>timedelta\<close> outside them raises \<open>OverflowError\<close>.
\<close>

definition datetime_min :: datetime where
  "datetime_min = - 62135596800000000"

definition datetime_max :: datetime where
  "datetime_max = 253402300799999999"

definition datetime_overflows :: "datetime \<Rightarrow> bool" where
  "datetime_overflows t = (t < datetime_min \<or> datetime_max < t)"

text \<open>What a request can end in instead of an answer: an exception nobody catches.\<close>

datatype exn = OverflowError | DatabaseError db_error

text \<open>
  \<open>POST /shorten\<close>. \<open>not long_url\<close> holds when the key is absent and when its string is
  empty. Line 138 computes \<open>expires_at\<close> before anything is allocated, and raises
  \<open>OverflowError\<close> when the days or the date are out of range. An exception out of
  \<open>allocate_key\<close> ends the request as well; \<open>None\<close> is a request that never answers.
\<close>

definition shorten_url ::
  "(nat \<Rightarrow> nat) \<Rightarrow> datetime \<Rightarrow> request \<Rightarrow> world \<Rightarrow> (exn + (response \<times> world)) option" where
  "shorten_url rnd now data s =
     (let no_url = Some (Inr ((JsonError ''No URL provided'', 400), s))
      in case req_long_url data of
           None \<Rightarrow> no_url
         | Some url \<Rightarrow>
             (if url = [] then no_url
              else
                (let expires_in_days =
                       (case req_expires_in_days data of None \<Rightarrow> 365 | Some n \<Rightarrow> n);
                     exp = now + timedelta_days expires_in_days
                 in if timedelta_overflows expires_in_days \<or> datetime_overflows exp
                    then Some (Inl OverflowError)
                    else
                      (case allocate_key rnd now s of
                         None \<Rightarrow> None
                       | Some (Inl err) \<Rightarrow> Some (Inl (DatabaseError err))
                       | Some (Inr (code, s1)) \<Rightarrow>
                           (let s2 = s1\<lparr>url_mapping :=
                                         insert_one code url (Some exp) (url_mapping s1)\<rparr>;
                                s3 = invalidate_cache s2
                            in Some (Inr ((JsonShortened (BASE_URL @ code) url (Isoformat exp),
                                           201), s3)))))))"

subsection \<open>Notions the statements use\<close>

text \<open>The codes the table holds.\<close>

definition codes :: "KeyPool list \<Rightarrow> string set" where
  "codes pool = set (map short_code pool)"

text \<open>
  The code that the attempt number \<open>k\<close> of a call draws, counting from 0, when the call
  starts at position \<open>pos\<close> of the random source: every attempt takes eight draws.
\<close>

definition candidate :: "(nat \<Rightarrow> nat) \<Rightarrow> nat \<Rightarrow> nat \<Rightarrow> string" where
  "candidate rnd pos k = generate_short_code rnd (pos + 8 * k) 8"

text \<open>
  The cache agrees with the collection: what it remembers for a code is what the
  collection answers for it.
\<close>

definition cache_coherent :: "world \<Rightarrow> bool" where
  "cache_coherent s =
     (\<forall>p \<in> set (cache s). snd p = get_url_mapping_wrapped (fst p) (url_mapping s))"

text \<open>
  A later table differs from an earlier one only by rows set free: the same codes in
  the same order, and no row in use that was free.
\<close>

definition frees_only :: "KeyPool list \<Rightarrow> KeyPool list \<Rightarrow> bool" where
  "frees_only pool pool' =
     list_all2 (\<lambda>e e'. short_code e' = short_code e \<and> (used e' \<longrightarrow> used e)) pool pool'"

subsection \<open>States and random sources for the examples\<close>

text \<open>A source that always draws 0, and one whose draws grow by one every 48 draws.\<close>

definition stuck_rnd :: "nat \<Rightarrow> nat" where
  "stuck_rnd n = 0"

definition late_rnd :: "nat \<Rightarrow> nat" where
  "late_rnd n = n div 48"

text \<open>A table whose only row is in use, and one with a free row after it.\<close>

definition full_world :: world where
  "full_world =
     \<lparr>key_pool = [\<lparr>kp_id = 1, short_code = ''aaaaaaaa'', used = True, created_at = 0\<rparr>],
      url_mapping = [], cache = [], rng_pos = 0\<rparr>"

definition free_world :: world where
  "free_world =
     \<lparr>key_pool = [\<lparr>kp_id = 1, short_code = ''aaaaaaaa'', used = True, created_at = 0\<rparr>,
                  \<lparr>kp_id = 2, short_code = ''Zk3m9QpX'', used = False, created_at = 0\<rparr>],
      url_mapping = [], cache = [], rng_pos = 0\<rparr>"

text \<open>
  Two codes in use, each with its mapping; the first mapping expires at 100, the second
  at 200, and the cache remembers the first. With \<open>all_ok\<close> every lookup of a sweep
  answers and every commit goes through; with \<open>first_fails\<close> the first does not.
\<close>

definition sweep_world :: world where
  "sweep_world =
     \<lparr>key_pool = [\<lparr>kp_id = 1, short_code = ''aaaaaaaa'', used = True, created_at = 0\<rparr>,
                  \<lparr>kp_id = 2, short_code = ''Zk3m9QpX'', used = True, created_at = 0\<rparr>],
      url_mapping =
        [\<lparr>doc_id = 1, doc_short_code = ''aaaaaaaa'', long_url = ''http://example.com'',
           expires_at = Some 100\<rparr>,
         \<lparr>doc_id = 2, doc_short_code = ''Zk3m9QpX'', long_url = ''http://example.org'',
           expires_at = Some 200\<rparr>],
      cache = [(''aaaaaaaa'', Some (''http://example.com'', Some 100))],
      rng_pos = 16\<rparr>"

definition all_ok :: "nat \<Rightarrow> bool" where
  "all_ok i = True"


text \<open>Four request bodies; the last asks for ten million days.\<close>

definition req30 :: request where
  "req30 = \<lparr>req_long_url = Some ''http://example.com'', req_expires_in_days = Some 30\<rparr>"

definition req_default :: request where
  "req_default = \<lparr>req_long_url = Some ''http://example.com'', req_expires_in_days = None\<rparr>"

definition req_no_url :: request where
  "req_no_url = \<lparr>req_long_url = None, req_expires_in_days = Some 30\<rparr>"

definition req_far :: request where
  "req_far = \<lparr>req_long_url = Some ''http://example.com'',
               req_expires_in_days = Some 10000000\<rparr>"

text \<open>
  \<open>free_world\<close> after a mapping to \<open>http://example.com\<close> was created at time 1000 for 30
  days, and \<open>sweep_world\<close> after a sweep at time 150.
\<close>

definition created_world :: world where
  "created_world =
     \<lparr>key_pool = [\<lparr>kp_id = 1, short_code = ''aaaaaaaa'', used = True, created_at = 0\<rparr>,
                  \<lparr>kp_id = 2, short_code = ''Zk3m9QpX'', used = True, created_at = 0\<rparr>],
      url_mapping =
        [\<lparr>doc_id = 1, doc_short_code = ''Zk3m9QpX'', long_url = ''http://example.com'',
           expires_at = Some 2592000001000\<rparr>],
      cache = [], rng_pos = 0\<rparr>"


section \<open>Allocation\<close>

lemma try_allocate_free:
  "List.find (\<lambda>e. \<not> used e) (key_pool s) = Some e \<Longrightarrow>
   try_allocate rnd now s =
     (Inr (short_code e), s\<lparr>key_pool := set_used (kp_id e) True (key_pool s)\<rparr>)"
  by (simp add: try_allocate_def)

lemma try_allocate_fresh:
  "List.find (\<lambda>e. \<not> used e) (key_pool s) = None \<Longrightarrow>
   candidate rnd (rng_pos s) 0 \<notin> codes (key_pool s) \<Longrightarrow>
   try_allocate rnd now s =
     (Inr (candidate rnd (rng_pos s) 0),
      s\<lparr>rng_pos := rng_pos s + 8,
        key_pool := key_pool s @
          [(new_row now (candidate rnd (rng_pos s) 0) (key_pool s))\<lparr>used := True\<rparr>]\<rparr>)"
  by (simp add: try_allocate_def candidate_def codes_def commit_insert_def new_row_def Let_def)

lemma try_allocate_conflict:
  "List.find (\<lambda>e. \<not> used e) (key_pool s) = None \<Longrightarrow>
   candidate rnd (rng_pos s) 0 \<in> codes (key_pool s) \<Longrightarrow>
   try_allocate rnd now s = (Inl IntegrityError, s\<lparr>rng_pos := rng_pos s + 8\<rparr>)"
  by (simp add: try_allocate_def candidate_def codes_def commit_insert_def new_row_def Let_def)

lemma allocate_key_free:
  "List.find (\<lambda>e. \<not> used e) (key_pool s) = Some e \<Longrightarrow>
   allocate_key rnd now s =
     Some (Inr (short_code e, s\<lparr>key_pool := set_used (kp_id e) True (key_pool s)\<rparr>))"
  by (subst allocate_key.simps) (simp add: try_allocate_free)

lemma candidate_shift: "candidate rnd (pos + 8) k = candidate rnd pos (Suc k)"
  by (simp add: candidate_def add.assoc)

text \<open>
  With no free row, the call returns the first candidate that the table does not hold,
  after one failed attempt for each candidate before it.
\<close>

lemma allocate_key_first_fresh:
  "List.find (\<lambda>e. \<not> used e) (key_pool s) = None \<Longrightarrow>
   \<forall>j<k. candidate rnd (rng_pos s) j \<in> codes (key_pool s) \<Longrightarrow>
   candidate rnd (rng_pos s) k \<notin> codes (key_pool s) \<Longrightarrow>
   allocate_key rnd now s =
     Some (Inr (candidate rnd (rng_pos s) k,
                s\<lparr>rng_pos := rng_pos s + 8 * Suc k,
                  key_pool := key_pool s @
                    [(new_row now (candidate rnd (rng_pos s) k) (key_pool s))\<lparr>used := True\<rparr>]\<rparr>))"
proof (induction k arbitrary: s)
  case 0
  then show ?case
    by (subst allocate_key.simps) (simp add: try_allocate_fresh)
next
  case (Suc k)
  let ?s = "rollback s (s\<lparr>rng_pos := rng_pos s + 8\<rparr>)"
  have pool: "key_pool ?s = key_pool s" and pos: "rng_pos ?s = rng_pos s + 8"
    by (simp_all add: rollback_def)
  from Suc.prems(2) have c0: "candidate rnd (rng_pos s) 0 \<in> codes (key_pool s)"
    by simp
  have step: "allocate_key rnd now s = allocate_key rnd now ?s"
    by (subst allocate_key.simps) (simp add: try_allocate_conflict [OF Suc.prems(1) c0])
  have "allocate_key rnd now ?s =
     Some (Inr (candidate rnd (rng_pos ?s) k,
                ?s\<lparr>rng_pos := rng_pos ?s + 8 * Suc k,
                  key_pool := key_pool ?s @
                    [(new_row now (candidate rnd (rng_pos ?s) k) (key_pool ?s))\<lparr>used := True\<rparr>]\<rparr>))"
  proof (rule Suc.IH)
    show "List.find (\<lambda>e. \<not> used e) (key_pool ?s) = None"
      using Suc.prems(1) by (simp add: pool)
    show "\<forall>j<k. candidate rnd (rng_pos ?s) j \<in> codes (key_pool ?s)"
      using Suc.prems(2) by (simp add: pool pos candidate_shift)
    show "candidate rnd (rng_pos ?s) k \<notin> codes (key_pool ?s)"
      using Suc.prems(3) by (simp add: pool pos candidate_shift)
  qed
  then show ?case
    by (simp add: step pool pos candidate_shift) (simp add: rollback_def)
qed

text \<open>A call that returns found a free row or drew a code the table does not hold.\<close>

lemma allocate_key_returns_cases:
  assumes "allocate_key rnd now s = Some y"
  shows "List.find (\<lambda>e. \<not> used e) (key_pool s) \<noteq> None \<or>
         (\<exists>k. candidate rnd (rng_pos s) k \<notin> codes (key_pool s))"
proof (rule allocate_key.raw_induct
    [where P = "\<lambda>rnd now s y. List.find (\<lambda>e. \<not> used e) (key_pool s) \<noteq> None \<or>
                  (\<exists>k. candidate rnd (rng_pos s) k \<notin> codes (key_pool s))", OF _ assms])
  fix f :: "(nat \<Rightarrow> nat) \<Rightarrow> datetime \<Rightarrow> world \<Rightarrow> (db_error + (string \<times> world)) option"
  fix rnd now s y
  assume IH: "\<And>rnd now s y. f rnd now s = Some y \<Longrightarrow>
      List.find (\<lambda>e. \<not> used e) (key_pool s) \<noteq> None \<or>
      (\<exists>k. candidate rnd (rng_pos s) k \<notin> codes (key_pool s))"
  assume body: "(case try_allocate rnd now s of
        (Inl IntegrityError, s') \<Rightarrow> f rnd now (rollback s s')
      | (Inl OperationalError, s') \<Rightarrow> Some (Inl OperationalError)
      | (Inr code, s') \<Rightarrow> Some (Inr (code, s'))) = Some y"
  show "List.find (\<lambda>e. \<not> used e) (key_pool s) \<noteq> None \<or>
        (\<exists>k. candidate rnd (rng_pos s) k \<notin> codes (key_pool s))"
  proof (cases "List.find (\<lambda>e. \<not> used e) (key_pool s)")
    case (Some e)
    then show ?thesis by simp
  next
    case None
    show ?thesis
    proof (cases "candidate rnd (rng_pos s) 0 \<in> codes (key_pool s)")
      case False
      then show ?thesis by blast
    next
      case True
      let ?s = "rollback s (s\<lparr>rng_pos := rng_pos s + 8\<rparr>)"
      from body have "f rnd now ?s = Some y"
        by (simp add: try_allocate_conflict [OF None True])
      from IH [OF this] None
      obtain k where "candidate rnd (rng_pos ?s) k \<notin> codes (key_pool ?s)"
        by (auto simp: rollback_def)
      then have "candidate rnd (rng_pos s) (Suc k) \<notin> codes (key_pool s)"
        by (simp add: rollback_def candidate_shift)
      then show ?thesis by blast
    qed
  qed
qed

lemma allocate_key_diverges:
  "List.find (\<lambda>e. \<not> used e) (key_pool s) = None \<Longrightarrow>
   \<forall>k. candidate rnd (rng_pos s) k \<in> codes (key_pool s) \<Longrightarrow>
   allocate_key rnd now s = None"
  using allocate_key_returns_cases [of rnd now s] by (cases "allocate_key rnd now s") auto

text \<open>No exception leaves \<open>allocate_key\<close>: what it returns is a code.\<close>

lemma allocate_key_no_error:
  assumes "allocate_key rnd now s = Some y"
  shows "\<exists>code s'. y = Inr (code, s')"
proof (rule allocate_key.raw_induct
    [where P = "\<lambda>rnd now s y. \<exists>code s'. y = Inr (code, s')", OF _ assms])
  fix f :: "(nat \<Rightarrow> nat) \<Rightarrow> datetime \<Rightarrow> world \<Rightarrow> (db_error + (string \<times> world)) option"
  fix rnd now s y
  assume IH: "\<And>rnd now s y. f rnd now s = Some y \<Longrightarrow> \<exists>code s'. y = Inr (code, s')"
  assume body: "(case try_allocate rnd now s of
        (Inl IntegrityError, s') \<Rightarrow> f rnd now (rollback s s')
      | (Inl OperationalError, s') \<Rightarrow> Some (Inl OperationalError)
      | (Inr code, s') \<Rightarrow> Some (Inr (code, s'))) = Some y"
  have no_op: "fst (try_allocate rnd now s) \<noteq> Inl OperationalError"
    by (simp add: try_allocate_def Let_def commit_insert_def split: option.splits)
  show "\<exists>code s'. y = Inr (code, s')"
  proof (cases "try_allocate rnd now s")
    case (Pair r s')
    show ?thesis
    proof (cases r)
      case (Inr code)
      with Pair body show ?thesis by auto
    next
      case (Inl err)
      with no_op Pair have "err = IntegrityError"
        by (cases err) simp_all
      with Inl Pair body have "f rnd now (rollback s s') = Some y" by simp
      then show ?thesis by (rule IH)
    qed
  qed
qed

text \<open>The generated code: its length and its alphabet.\<close>

lemma length_generate_short_code: "length (generate_short_code rnd pos len) = len"
  by (simp add: generate_short_code_def)

lemma set_generate_short_code: "set (generate_short_code rnd pos len) \<subseteq> set allowed_chars"
proof -
  have "0 < length allowed_chars" by (simp add: allowed_chars_def)
  then show ?thesis
    unfolding generate_short_code_def by (auto intro!: nth_mem)
qed

lemma upt8: "[0..<8] = [0, 1, 2, 3, 4, 5, 6, 7]"
  by (simp add: upt_rec)

lemma candidate_stuck: "candidate stuck_rnd pos k = ''aaaaaaaa''"
  by (simp add: candidate_def generate_short_code_def stuck_rnd_def allowed_chars_def upt8)

lemma candidate_late_low: "k < 6 \<Longrightarrow> candidate late_rnd 0 k = ''aaaaaaaa''"
  by (simp add: candidate_def generate_short_code_def late_rnd_def allowed_chars_def upt8)

lemma candidate_late_6: "candidate late_rnd 0 6 = ''bbbbbbbb''"
  by (simp add: candidate_def generate_short_code_def late_rnd_def allowed_chars_def upt8)

lemma find_Some_set: "List.find P xs = Some x \<Longrightarrow> x \<in> set xs \<and> P x"
  by (auto simp: find_Some_iff)

lemma set_used_member:
  "e \<in> set pool \<Longrightarrow> e\<lparr>used := b\<rparr> \<in> set (set_used (kp_id e) b pool)"
  by (auto simp: set_used_def)

subsection \<open>Conflicts and retries\<close>

text \<open>
  C1, as the specification states it, asks for a capped retry and an exhaustion error.
  The code has neither: with the only code the source ever draws already in the table,
  the call goes from one attempt to the next and never returns.
\<close>

theorem allocate_key_retry_counterexample:
  "allocate_key stuck_rnd 0 full_world = None"
  by (rule allocate_key_diverges) (simp_all add: candidate_stuck codes_def full_world_def)

text \<open>
  C1 (amended): when the commit of a freshly generated code fails with a uniqueness
  conflict, \<open>allocate_key\<close> rolls back and starts again, with no cap on the number of
  attempts and no exhaustion error. With no free row in the table, it returns the first
  drawn code that the table does not hold, after one failed attempt for each draw
  before it; when every draw is a code of the table it never returns; and it never
  hands the conflict to its caller.
\<close>

theorem allocate_key_retries_until_fresh:
  assumes "List.find (\<lambda>e. \<not> used e) (key_pool s) = None"
  shows "allocate_key rnd now s \<noteq> Some (Inl IntegrityError) \<and>
    ((\<forall>k. candidate rnd (rng_pos s) k \<in> codes (key_pool s)) \<longrightarrow>
       allocate_key rnd now s = None) \<and>
    ((\<forall>j<k. candidate rnd (rng_pos s) j \<in> codes (key_pool s)) \<and>
     candidate rnd (rng_pos s) k \<notin> codes (key_pool s) \<longrightarrow>
       allocate_key rnd now s =
         Some (Inr (candidate rnd (rng_pos s) k,
                    s\<lparr>rng_pos := rng_pos s + 8 * Suc k,
                      key_pool := key_pool s @
                        [(new_row now (candidate rnd (rng_pos s) k) (key_pool s))
                           \<lparr>used := True\<rparr>]\<rparr>)))"
proof (intro conjI impI)
  show "allocate_key rnd now s \<noteq> Some (Inl IntegrityError)"
    using allocate_key_no_error [of rnd now s "Inl IntegrityError"] by auto
next
  assume "\<forall>k. candidate rnd (rng_pos s) k \<in> codes (key_pool s)"
  with assms show "allocate_key rnd now s = None"
    by (rule allocate_key_diverges)
next
  assume "(\<forall>j<k. candidate rnd (rng_pos s) j \<in> codes (key_pool s)) \<and>
     candidate rnd (rng_pos s) k \<notin> codes (key_pool s)"
  with assms show "allocate_key rnd now s =
         Some (Inr (candidate rnd (rng_pos s) k,
                    s\<lparr>rng_pos := rng_pos s + 8 * Suc k,
                      key_pool := key_pool s @
                        [(new_row now (candidate rnd (rng_pos s) k) (key_pool s))
                           \<lparr>used := True\<rparr>]\<rparr>))"
    using allocate_key_first_fresh [of s k rnd now] by blast
qed

text \<open>
  The amended C1 at work: six conflicts, then the seventh attempt returns; and a source
  that only draws the code of the table.
\<close>

theorem allocate_key_retries_until_fresh_witness:
  "List.find (\<lambda>e. \<not> used e) (key_pool full_world) = None \<and>
   candidate late_rnd (rng_pos full_world) ` {..<6} \<subseteq> codes (key_pool full_world) \<and>
   candidate late_rnd (rng_pos full_world) 6 \<notin> codes (key_pool full_world) \<and>
   allocate_key late_rnd 0 full_world =
     Some (Inr (''bbbbbbbb'',
       \<lparr>key_pool = [\<lparr>kp_id = 1, short_code = ''aaaaaaaa'', used = True, created_at = 0\<rparr>,
                    \<lparr>kp_id = 2, short_code = ''bbbbbbbb'', used = True, created_at = 0\<rparr>],
        url_mapping = [], cache = [], rng_pos = 56\<rparr>)) \<and>
   range (candidate stuck_rnd (rng_pos full_world)) \<subseteq> codes (key_pool full_world) \<and>
   allocate_key stuck_rnd 5 full_world = None"
proof -
  have h: "List.find (\<lambda>e. \<not> used e) (key_pool full_world) = None"
    by (simp add: full_world_def)
  have low: "\<forall>j<6. candidate late_rnd (rng_pos full_world) j \<in> codes (key_pool full_world)"
    by (simp add: full_world_def codes_def candidate_late_low)
  have six: "candidate late_rnd (rng_pos full_world) 6 \<notin> codes (key_pool full_world)"
    by (simp add: full_world_def codes_def candidate_late_6)
  have all: "\<forall>k. candidate stuck_rnd (rng_pos full_world) k \<in> codes (key_pool full_world)"
    by (simp add: full_world_def codes_def candidate_stuck)
  from allocate_key_retries_until_fresh [OF h, of late_rnd 0 6] low six
  have "allocate_key late_rnd 0 full_world =
     Some (Inr (''bbbbbbbb'',
       \<lparr>key_pool = [\<lparr>kp_id = 1, short_code = ''aaaaaaaa'', used = True, created_at = 0\<rparr>,
                    \<lparr>kp_id = 2, short_code = ''bbbbbbbb'', used = True, created_at = 0\<rparr>],
        url_mapping = [], cache = [], rng_pos = 56\<rparr>))"
    by (simp add: full_world_def candidate_late_6 new_row_def next_id_def)
  moreover from allocate_key_retries_until_fresh [OF h, of stuck_rnd 5] all
  have "allocate_key stuck_rnd 5 full_world = None"
    by simp
  ultimately show ?thesis using h low six all by auto
qed

subsection \<open>What a call returns\<close>

text \<open>
  C2: in every state of the key pool with a free row, \<open>allocate_key\<close> returns the code of
  a row that was free before the call and marks that row used; with no free row it
  returns a new code of 8 characters of the alphabet of letters and digits, which the
  table did not hold, in a new row marked used. In both cases a row with the returned
  code is marked used after the call. The call returns when a free row exists or some
  attempt draws a code that the table does not hold.
\<close>

theorem allocate_key_result:
  assumes "(\<exists>e\<in>set (key_pool s). \<not> used e) \<or>
           (\<exists>k. candidate rnd (rng_pos s) k \<notin> codes (key_pool s))"
  shows "\<exists>code s'. allocate_key rnd now s = Some (Inr (code, s')) \<and>
      url_mapping s' = url_mapping s \<and> cache s' = cache s \<and>
      (\<exists>e'\<in>set (key_pool s'). short_code e' = code \<and> used e') \<and>
      (if \<exists>e\<in>set (key_pool s). \<not> used e
       then \<exists>e\<in>set (key_pool s). \<not> used e \<and> short_code e = code \<and>
              key_pool s' = set_used (kp_id e) True (key_pool s) \<and> rng_pos s' = rng_pos s
       else length code = 8 \<and> set code \<subseteq> set allowed_chars \<and>
            code \<notin> codes (key_pool s) \<and>
            (\<exists>e'. key_pool s' = key_pool s @ [e'] \<and> short_code e' = code \<and> used e'))"
proof (cases "\<exists>e\<in>set (key_pool s). \<not> used e")
  case True
  then obtain e where f: "List.find (\<lambda>e. \<not> used e) (key_pool s) = Some e"
    by (cases "List.find (\<lambda>e. \<not> used e) (key_pool s)") (auto simp: find_None_iff)
  then have e: "e \<in> set (key_pool s)" "\<not> used e"
    by (auto dest: find_Some_set)
  let ?s' = "s\<lparr>key_pool := set_used (kp_id e) True (key_pool s)\<rparr>"
  have "allocate_key rnd now s = Some (Inr (short_code e, ?s'))"
    using f by (rule allocate_key_free)
  moreover have "e\<lparr>used := True\<rparr> \<in> set (key_pool ?s')"
    using e(1) by (simp add: set_used_member)
  then have "\<exists>e'\<in>set (key_pool ?s'). short_code e' = short_code e \<and> used e'"
    by (intro bexI [of _ "e\<lparr>used := True\<rparr>"]) simp_all
  ultimately show ?thesis using True e by auto
next
  case False
  then have none: "List.find (\<lambda>e. \<not> used e) (key_pool s) = None"
    by (simp add: find_None_iff)
  from False assms obtain k0 where "candidate rnd (rng_pos s) k0 \<notin> codes (key_pool s)"
    by blast
  then obtain k where k: "candidate rnd (rng_pos s) k \<notin> codes (key_pool s)"
      "\<forall>j<k. candidate rnd (rng_pos s) j \<in> codes (key_pool s)"
    using exists_least_iff [of "\<lambda>k. candidate rnd (rng_pos s) k \<notin> codes (key_pool s)"] by auto
  let ?c = "candidate rnd (rng_pos s) k"
  have "allocate_key rnd now s =
     Some (Inr (?c, s\<lparr>rng_pos := rng_pos s + 8 * Suc k,
                      key_pool := key_pool s @ [(new_row now ?c (key_pool s))\<lparr>used := True\<rparr>]\<rparr>))"
    using none k(2) k(1) by (rule allocate_key_first_fresh)
  moreover have "length ?c = 8" "set ?c \<subseteq> set allowed_chars"
    by (simp_all add: candidate_def length_generate_short_code set_generate_short_code)
  ultimately show ?thesis using False k(1) by (simp add: new_row_def)
qed

text \<open>C2 at work: a table with a free row, and a table without one.\<close>

theorem allocate_key_result_witness:
  "((\<exists>e\<in>set (key_pool free_world). \<not> used e) \<and>
    (\<exists>s'. allocate_key stuck_rnd 0 free_world = Some (Inr (''Zk3m9QpX'', s')) \<and>
       key_pool s' =
         [\<lparr>kp_id = 1, short_code = ''aaaaaaaa'', used = True, created_at = 0\<rparr>,
          \<lparr>kp_id = 2, short_code = ''Zk3m9QpX'', used = True, created_at = 0\<rparr>])) \<and>
   (\<not> (\<exists>e\<in>set (key_pool full_world). \<not> used e) \<and>
    candidate late_rnd (rng_pos full_world) 6 \<notin> codes (key_pool full_world) \<and>
    (\<exists>code s'. allocate_key late_rnd 0 full_world = Some (Inr (code, s')) \<and>
       length code = 8 \<and> set code \<subseteq> set allowed_chars \<and>
       (\<exists>e'. key_pool s' = key_pool full_world @ [e'] \<and> short_code e' = code \<and> used e')))"
proof -
  have free: "\<exists>e\<in>set (key_pool free_world). \<not> used e"
    by (simp add: free_world_def)
  have full: "\<not> (\<exists>e\<in>set (key_pool full_world). \<not> used e)"
    by (simp add: full_world_def)
  have six: "candidate late_rnd (rng_pos full_world) 6 \<notin> codes (key_pool full_world)"
    by (simp add: full_world_def codes_def candidate_late_6)
  from allocate_key_result [of free_world stuck_rnd 0] free
  have "\<exists>s'. allocate_key stuck_rnd 0 free_world = Some (Inr (''Zk3m9QpX'', s')) \<and>
       key_pool s' =
         [\<lparr>kp_id = 1, short_code = ''aaaaaaaa'', used = True, created_at = 0\<rparr>,
          \<lparr>kp_id = 2, short_code = ''Zk3m9QpX'', used = True, created_at = 0\<rparr>]"
    by (auto simp: free_world_def set_used_def)
  moreover from allocate_key_result [of full_world late_rnd 0] six full
  have "\<exists>code s'. allocate_key late_rnd 0 full_world = Some (Inr (code, s')) \<and>
       length code = 8 \<and> set code \<subseteq> set allowed_chars \<and>
       (\<exists>e'. key_pool s' = key_pool full_world @ [e'] \<and> short_code e' = code \<and> used e')"
    by (auto simp del: set_upt)
  ultimately show ?thesis using free full six by blast
qed

section \<open>Recycling\<close>

lemma find_map_same:
  "(\<And>x. P (f x) = P x) \<Longrightarrow> List.find P (map f xs) = map_option f (List.find P xs)"
  by (induction xs) simp_all

lemma find_set_used:
  "List.find (\<lambda>e. short_code e = code) (set_used k b pool) =
   map_option (\<lambda>e. if kp_id e = k then e\<lparr>used := b\<rparr> else e)
     (List.find (\<lambda>e. short_code e = code) pool)"
  unfolding set_used_def by (rule find_map_same) simp

lemma set_used_twice: "set_used k b (set_used k b pool) = set_used k b pool"
  by (simp add: set_used_def)

lemma short_code_set_used: "map short_code (set_used k b pool) = map short_code pool"
  by (simp add: set_used_def)

lemma recycle_key_cases:
  "recycle_key code True ok s =
     Inr (case List.find (\<lambda>e. short_code e = code) (key_pool s) of
            None \<Rightarrow> s
          | Some e \<Rightarrow> if ok then s\<lparr>key_pool := set_used (kp_id e) False (key_pool s)\<rparr> else s)"
  by (simp add: recycle_key_def commit_update_def rollback_def split: option.splits)

lemma recycle_key_lookup_fails: "recycle_key code False ok s = Inl OperationalError"
  by (simp add: recycle_key_def)

text \<open>
  Once the lookup has answered, \<open>recycle_key\<close> returns: for a code with a row it sets
  \<open>used\<close> to false, and a second call then leaves the state as the first left it; for a
  code without a row it changes nothing; a commit that fails is rolled back and
  absorbed, and the state, the \<open>used\<close> flag with it, is as before the call.
\<close>

lemma recycle_key_after_lookup:
  "\<exists>s'. recycle_key code True ok s = Inr s' \<and>
      url_mapping s' = url_mapping s \<and> cache s' = cache s \<and> rng_pos s' = rng_pos s \<and>
      (case List.find (\<lambda>e. short_code e = code) (key_pool s) of
         None \<Rightarrow> s' = s
       | Some e \<Rightarrow>
           if ok
           then key_pool s' = set_used (kp_id e) False (key_pool s) \<and>
                List.find (\<lambda>e. short_code e = code) (key_pool s') = Some (e\<lparr>used := False\<rparr>) \<and>
                recycle_key code True ok s' = Inr s'
           else s' = s)"
proof (cases "List.find (\<lambda>e. short_code e = code) (key_pool s)")
  case None
  then show ?thesis by (simp add: recycle_key_cases)
next
  case (Some e)
  show ?thesis
  proof (cases ok)
    case False
    with Some show ?thesis by (simp add: recycle_key_cases)
  next
    case True
    let ?s' = "s\<lparr>key_pool := set_used (kp_id e) False (key_pool s)\<rparr>"
    have f: "List.find (\<lambda>e. short_code e = code) (set_used (kp_id e) False (key_pool s)) =
        Some (e\<lparr>used := False\<rparr>)"
      using Some by (simp add: find_set_used)
    have "recycle_key code True ok ?s' = Inr ?s'"
      using True by (simp add: recycle_key_cases f set_used_twice)
    with Some True f show ?thesis by (simp add: recycle_key_cases)
  qed
qed

text \<open>
  C8: the claim is that \<open>recycle_key\<close> never raises to its caller. The \<open>try\<close> of lines 68
  to 71 covers the commit alone; the lookup of line 65 is before it. When the lookup
  raises, for the row \<open>aaaaaaaa\<close> of a table that holds it, on a database whose commit
  would go through, the exception leaves \<open>recycle_key\<close>.
\<close>

theorem recycle_key_raises_at_lookup:
  "recycle_key ''aaaaaaaa'' False True full_world = Inl OperationalError"
  by (rule recycle_key_lookup_fails)

section \<open>The sweep\<close>

subsection \<open>What the loop does to the two stores\<close>

lemma frees_only_refl: "frees_only pool pool"
  by (simp add: frees_only_def list_all2_refl)

lemma frees_only_trans:
  assumes "frees_only p q" "frees_only q r"
  shows "frees_only p r"
  unfolding frees_only_def
proof (rule list_all2_trans)
  show "list_all2 (\<lambda>e e'. short_code e' = short_code e \<and> (used e' \<longrightarrow> used e)) p q"
    using assms(1) by (simp add: frees_only_def)
  show "list_all2 (\<lambda>e e'. short_code e' = short_code e \<and> (used e' \<longrightarrow> used e)) q r"
    using assms(2) by (simp add: frees_only_def)
qed auto

lemma frees_only_set_used: "frees_only pool (set_used k False pool)"
  by (simp add: frees_only_def set_used_def list_all2_map2 list_all2_refl)

lemma frees_only_codes: "frees_only pool pool' \<Longrightarrow> map short_code pool' = map short_code pool"
  unfolding frees_only_def by (induction rule: list_all2_induct) simp_all

lemma frees_only_keeps_free:
  assumes "frees_only pool pool'" "\<forall>e\<in>set pool. short_code e = c \<longrightarrow> \<not> used e"
  shows "\<forall>e\<in>set pool'. short_code e = c \<longrightarrow> \<not> used e"
  using assms unfolding frees_only_def by (induction rule: list_all2_induct) auto

lemma delete_one_distinct:
  "distinct (map doc_id docs) \<Longrightarrow> delete_one k docs = filter (\<lambda>d. doc_id d \<noteq> k) docs"
proof (induction docs)
  case Nil
  then show ?case by simp
next
  case (Cons d docs)
  show ?case
  proof (cases "doc_id d = k")
    case True
    with Cons.prems have "\<forall>x\<in>set docs. doc_id x \<noteq> k" by (auto simp: image_iff)
    then have "filter (\<lambda>d. doc_id d \<noteq> k) docs = docs" by (simp add: filter_id_conv)
    with True show ?thesis by simp
  next
    case False
    with Cons show ?thesis by simp
  qed
qed

lemma fold_delete_one:
  "distinct (map doc_id docs) \<Longrightarrow>
   fold (\<lambda>d. delete_one (doc_id d)) ds docs = filter (\<lambda>d. doc_id d \<notin> doc_id ` set ds) docs"
proof (induction ds arbitrary: docs)
  case Nil
  then show ?case by simp
next
  case (Cons d ds)
  have "distinct (map doc_id (filter (\<lambda>x. doc_id x \<noteq> doc_id d) docs))"
    using Cons.prems by (rule distinct_map_filter)
  with Cons show ?case
    by (simp add: delete_one_distinct)
qed

lemma delete_expired:
  assumes "distinct (map doc_id docs)"
  shows "fold (\<lambda>d. delete_one (doc_id d)) (find_expired now docs) docs =
         filter (\<lambda>d. \<not> expired_before now d) docs"
proof -
  have "\<And>d. d \<in> set docs \<Longrightarrow>
      (doc_id d \<in> doc_id ` set (find_expired now docs)) = expired_before now d"
    using assms by (auto simp: find_expired_def distinct_map inj_on_def)
  then show ?thesis
    using assms by (simp add: fold_delete_one cong: filter_cong)
qed

lemma sweep_Cons:
  "sweep looks oks i (doc # docs) s =
     (case recycle_key (doc_short_code doc) (looks i) (oks i)
             (s\<lparr>url_mapping := delete_one (doc_id doc) (url_mapping s)\<rparr>) of
        Inl err \<Rightarrow> Inl err
      | Inr s2 \<Rightarrow> sweep looks oks (Suc i) docs s2)"
  by (simp add: Let_def)

lemma recycle_key_Inr_looked: "recycle_key code look ok s = Inr s' \<Longrightarrow> look"
  by (cases look) (simp_all add: recycle_key_lookup_fails)

lemma recycle_key_frame:
  assumes "recycle_key code look ok s = Inr s'"
  shows "url_mapping s' = url_mapping s" "cache s' = cache s" "rng_pos s' = rng_pos s"
    "frees_only (key_pool s) (key_pool s')"
proof -
  from assms have "look" by (rule recycle_key_Inr_looked)
  with assms have r: "recycle_key code True ok s = Inr s'" by simp
  from r show "url_mapping s' = url_mapping s" "cache s' = cache s" "rng_pos s' = rng_pos s"
      "frees_only (key_pool s) (key_pool s')"
    by (auto simp: recycle_key_cases frees_only_refl frees_only_set_used
             split: option.splits if_splits)
qed

lemma recycle_key_total: "\<exists>s'. recycle_key code True ok s = Inr s'"
  by (simp add: recycle_key_cases)

lemma recycle_key_frees:
  assumes "distinct (map short_code (key_pool s))" "recycle_key code True True s = Inr s'"
  shows "\<forall>e\<in>set (key_pool s'). short_code e = code \<longrightarrow> \<not> used e"
proof (cases "List.find (\<lambda>e. short_code e = code) (key_pool s)")
  case None
  then have "\<forall>e\<in>set (key_pool s). short_code e \<noteq> code"
    by (simp add: find_None_iff)
  moreover from assms(2) None have "s' = s" by (simp add: recycle_key_cases)
  ultimately show ?thesis by simp
next
  case (Some e)
  then have e: "e \<in> set (key_pool s)" "short_code e = code"
    by (auto dest: find_Some_set)
  from assms(2) Some have s': "key_pool s' = set_used (kp_id e) False (key_pool s)"
    by (auto simp: recycle_key_cases)
  have "\<And>x. x \<in> set (key_pool s) \<Longrightarrow> short_code x = code \<Longrightarrow> x = e"
    using assms(1) e by (auto simp: distinct_map inj_on_def)
  then show ?thesis
    by (auto simp: s' set_used_def)
qed

text \<open>A loop that returns has made every lookup, and a loop whose lookups answer returns.\<close>

lemma sweep_Inr_Cons:
  assumes "sweep looks oks i (d # docs) s = Inr s'"
  obtains s2 where
    "recycle_key (doc_short_code d) (looks i) (oks i)
       (s\<lparr>url_mapping := delete_one (doc_id d) (url_mapping s)\<rparr>) = Inr s2"
    "sweep looks oks (Suc i) docs s2 = Inr s'"
  using assms by (auto simp: sweep_Cons simp del: sweep.simps split: sum.splits)

lemma sweep_returns:
  "\<forall>j<length docs. looks (i + j) \<Longrightarrow> \<exists>s'. sweep looks oks i docs s = Inr s'"
proof (induction docs arbitrary: s i)
  case Nil
  then show ?case by simp
next
  case (Cons d docs)
  from Cons.prems have l0: "looks i" and ls: "\<forall>j<length docs. looks (Suc i + j)"
    by auto
  obtain s2 where "recycle_key (doc_short_code d) True (oks i)
      (s\<lparr>url_mapping := delete_one (doc_id d) (url_mapping s)\<rparr>) = Inr s2"
    using recycle_key_total by blast
  with l0 Cons.IH [OF ls, of s2] show ?case
    by (simp add: sweep_Cons del: sweep.simps)
qed

lemma sweep_frame:
  assumes "sweep looks oks i docs s = Inr s'"
  shows "url_mapping s' = fold (\<lambda>d. delete_one (doc_id d)) docs (url_mapping s) \<and>
     cache s' = cache s \<and> rng_pos s' = rng_pos s \<and>
     frees_only (key_pool s) (key_pool s')"
  using assms
proof (induction docs arbitrary: s i)
  case Nil
  then show ?case by (simp add: frees_only_refl)
next
  case (Cons d docs)
  from Cons.prems obtain s2 where
    s2: "recycle_key (doc_short_code d) (looks i) (oks i)
       (s\<lparr>url_mapping := delete_one (doc_id d) (url_mapping s)\<rparr>) = Inr s2"
    and sw: "sweep looks oks (Suc i) docs s2 = Inr s'"
    by (rule sweep_Inr_Cons)
  note fr = recycle_key_frame [OF s2]
  note ih = Cons.IH [OF sw]
  have "frees_only (key_pool s) (key_pool s')"
    using fr(4) ih by (auto intro: frees_only_trans)
  with fr ih show ?case by simp
qed

lemma sweep_frees:
  assumes "sweep looks oks i docs s = Inr s'" "distinct (map short_code (key_pool s))"
    "\<forall>j<length docs. oks (i + j)"
  shows "\<forall>d\<in>set docs. \<forall>e\<in>set (key_pool s'). short_code e = doc_short_code d \<longrightarrow> \<not> used e"
  using assms
proof (induction docs arbitrary: s i)
  case Nil
  then show ?case by simp
next
  case (Cons d docs)
  let ?s1 = "s\<lparr>url_mapping := delete_one (doc_id d) (url_mapping s)\<rparr>"
  from Cons.prems(3) have ok0: "oks i" and oks: "\<forall>j<length docs. oks (Suc i + j)"
    by auto
  from Cons.prems(1) obtain s2 where
    s2: "recycle_key (doc_short_code d) (looks i) (oks i) ?s1 = Inr s2"
    and sw: "sweep looks oks (Suc i) docs s2 = Inr s'"
    by (rule sweep_Inr_Cons)
  from s2 have "looks i" by (rule recycle_key_Inr_looked)
  with s2 ok0 have s2': "recycle_key (doc_short_code d) True True ?s1 = Inr s2" by simp
  note fr = recycle_key_frame [OF s2]
  have d2: "distinct (map short_code (key_pool s2))"
    using fr(4) Cons.prems(2) by (simp add: frees_only_codes)
  have "\<forall>e\<in>set (key_pool s2). short_code e = doc_short_code d \<longrightarrow> \<not> used e"
    using Cons.prems(2) s2' by (intro recycle_key_frees [of ?s1]) simp_all
  moreover have "frees_only (key_pool s2) (key_pool s')"
    using sweep_frame [OF sw] by simp
  ultimately have "\<forall>e\<in>set (key_pool s'). short_code e = doc_short_code d \<longrightarrow> \<not> used e"
    by (rule frees_only_keeps_free [rotated])
  moreover note Cons.IH [OF sw d2 oks]
  ultimately show ?case by simp
qed

text \<open>
  C3: after one sweep at time \<open>now\<close> in which every lookup of \<open>recycle_key\<close> answers and
  every commit goes through, every mapping whose \<open>expires_at\<close> is before \<open>now\<close> is gone
  from the collection and every row of the key pool with its code is free; the mappings
  that expire at \<open>now\<close> or later, or never, are in the collection as before, in their
  order. The collection holds no two documents with one \<open>_id\<close>, the table no two rows
  with one code.
\<close>

theorem cleanup_expired_urls_sweeps:
  assumes "distinct (map doc_id (url_mapping s))"
    and "distinct (map short_code (key_pool s))"
    and "\<forall>i<length (find_expired now (url_mapping s)). looks i"
    and "\<forall>i<length (find_expired now (url_mapping s)). oks i"
  shows "\<exists>s'. cleanup_expired_urls now looks oks s = Inr s' \<and>
     url_mapping s' = filter (\<lambda>d. \<not> expired_before now d) (url_mapping s) \<and>
     map short_code (key_pool s') = map short_code (key_pool s) \<and>
     (\<forall>d\<in>set (url_mapping s).
        if expired_before now d
        then d \<notin> set (url_mapping s') \<and>
             (\<forall>e\<in>set (key_pool s'). short_code e = doc_short_code d \<longrightarrow> \<not> used e)
        else d \<in> set (url_mapping s'))"
proof -
  let ?ex = "find_expired now (url_mapping s)"
  from sweep_returns [of ?ex looks 0 oks s] assms(3)
  obtain s1 where sw: "sweep looks oks 0 ?ex s = Inr s1"
    by auto
  from sweep_frame [OF sw] have
    s1: "url_mapping s1 = fold (\<lambda>d. delete_one (doc_id d)) ?ex (url_mapping s)"
      "frees_only (key_pool s) (key_pool s1)"
    by simp_all
  let ?s' = "if ?ex \<noteq> [] then invalidate_cache s1 else s1"
  have res: "cleanup_expired_urls now looks oks s = Inr ?s'"
    using sw by (simp add: cleanup_expired_urls_def)
  have store: "url_mapping ?s' = filter (\<lambda>d. \<not> expired_before now d) (url_mapping s)"
    using s1(1) assms(1) by (simp add: delete_expired invalidate_cache_def)
  have pool: "key_pool ?s' = key_pool s1"
    by (simp add: invalidate_cache_def)
  have codes: "map short_code (key_pool ?s') = map short_code (key_pool s)"
    using s1(2) by (simp add: pool frees_only_codes)
  have "\<forall>d\<in>set ?ex. \<forall>e\<in>set (key_pool s1). short_code e = doc_short_code d \<longrightarrow> \<not> used e"
    using sw assms(2) assms(4) by (intro sweep_frees [of looks oks 0]) simp_all
  then have free: "\<forall>d\<in>set (url_mapping s). expired_before now d \<longrightarrow>
      (\<forall>e\<in>set (key_pool ?s'). short_code e = doc_short_code d \<longrightarrow> \<not> used e)"
    unfolding pool by (simp add: find_expired_def)
  show ?thesis
    apply (rule exI [of _ ?s'])
    apply (intro conjI res store codes)
    using free store apply auto
    done
qed


text \<open>C3 at work: a sweep at 150 removes the mapping that expired at 100.\<close>

theorem cleanup_expired_urls_sweeps_witness:
  "distinct (map doc_id (url_mapping sweep_world)) \<and>
   distinct (map short_code (key_pool sweep_world)) \<and>
   all_ok 0 \<and>
   (\<exists>s'. cleanup_expired_urls 150 all_ok all_ok sweep_world = Inr s' \<and>
      url_mapping s' =
        [\<lparr>doc_id = 2, doc_short_code = ''Zk3m9QpX'', long_url = ''http://example.org'',
           expires_at = Some 200\<rparr>] \<and>
      map short_code (key_pool s') = [''aaaaaaaa'', ''Zk3m9QpX''] \<and>
      (\<forall>e\<in>set (key_pool s'). short_code e = ''aaaaaaaa'' \<longrightarrow> \<not> used e))"
proof -
  have h1: "distinct (map doc_id (url_mapping sweep_world))"
    by (simp add: sweep_world_def)
  have h2: "distinct (map short_code (key_pool sweep_world))"
    by (simp add: sweep_world_def)
  have h3: "\<forall>i<length (find_expired 150 (url_mapping sweep_world)). all_ok i"
    by (simp add: all_ok_def)
  from cleanup_expired_urls_sweeps [OF h1 h2 h3 h3]
  have "\<exists>s'. cleanup_expired_urls 150 all_ok all_ok sweep_world = Inr s' \<and>
      url_mapping s' =
        [\<lparr>doc_id = 2, doc_short_code = ''Zk3m9QpX'', long_url = ''http://example.org'',
           expires_at = Some 200\<rparr>] \<and>
      map short_code (key_pool s') = [''aaaaaaaa'', ''Zk3m9QpX''] \<and>
      (\<forall>e\<in>set (key_pool s'). short_code e = ''aaaaaaaa'' \<longrightarrow> \<not> used e)"
    by (auto simp: sweep_world_def expired_before_def)
  with h1 h2 show ?thesis by (simp add: all_ok_def)
qed

subsection \<open>The order of the steps\<close>





















section \<open>The cache and the two routes\<close>

subsection \<open>What the operations leave alone\<close>

lemma try_allocate_frame:
  "url_mapping (snd (try_allocate rnd now s)) = url_mapping s \<and>
   cache (snd (try_allocate rnd now s)) = cache s"
  by (simp add: try_allocate_def Let_def split: option.splits sum.splits)

lemma allocate_key_frame:
  assumes "allocate_key rnd now s = Some (Inr (code, s1))"
  shows "url_mapping s1 = url_mapping s \<and> cache s1 = cache s"
proof -
  have "\<forall>c s'. (Inr (code, s1) :: db_error + string \<times> world) = Inr (c, s') \<longrightarrow>
          url_mapping s' = url_mapping s \<and> cache s' = cache s"
  proof (rule allocate_key.raw_induct
      [where P = "\<lambda>rnd now s y. \<forall>code s1. y = Inr (code, s1) \<longrightarrow>
                    url_mapping s1 = url_mapping s \<and> cache s1 = cache s", OF _ assms])
    fix f :: "(nat \<Rightarrow> nat) \<Rightarrow> datetime \<Rightarrow> world \<Rightarrow> (db_error + (string \<times> world)) option"
    fix rnd now s y
    assume IH: "\<And>rnd now s y. f rnd now s = Some y \<Longrightarrow>
        \<forall>code s1. y = Inr (code, s1) \<longrightarrow> url_mapping s1 = url_mapping s \<and> cache s1 = cache s"
    assume body: "(case try_allocate rnd now s of
          (Inl IntegrityError, s') \<Rightarrow> f rnd now (rollback s s')
        | (Inl OperationalError, s') \<Rightarrow> Some (Inl OperationalError)
        | (Inr code, s') \<Rightarrow> Some (Inr (code, s'))) = Some y"
    note fr = try_allocate_frame [of rnd now s]
    show "\<forall>code s1. y = Inr (code, s1) \<longrightarrow> url_mapping s1 = url_mapping s \<and> cache s1 = cache s"
    proof (cases "try_allocate rnd now s")
      case (Pair r s')
      show ?thesis
      proof (cases r)
        case (Inr code)
        with Pair body fr show ?thesis by auto
      next
        case (Inl err)
        show ?thesis
        proof (cases err)
          case IntegrityError
          with Inl Pair body have "f rnd now (rollback s s') = Some y" by simp
          from IH [OF this] Pair fr show ?thesis by (simp add: rollback_def)
        next
          case OperationalError
          with Inl Pair body show ?thesis by auto
        qed
      qed
    qed
  qed
  then show ?thesis by simp
qed


lemma get_url_mapping_frame:
  "key_pool (snd (get_url_mapping code s)) = key_pool s \<and>
   url_mapping (snd (get_url_mapping code s)) = url_mapping s \<and>
   rng_pos (snd (get_url_mapping code s)) = rng_pos s"
  by (simp add: get_url_mapping_def Let_def split: option.splits)

lemma get_url_mapping_coherent:
  assumes "cache_coherent s"
  shows "fst (get_url_mapping code s) = get_url_mapping_wrapped code (url_mapping s)"
    and "cache_coherent (snd (get_url_mapping code s))"
proof -
  show "fst (get_url_mapping code s) = get_url_mapping_wrapped code (url_mapping s)"
  proof (cases "map_of (cache s) code")
    case None
    then show ?thesis by (simp add: get_url_mapping_def Let_def)
  next
    case (Some result)
    then have "(code, result) \<in> set (cache s)" by (rule map_of_SomeD)
    with assms have "result = get_url_mapping_wrapped code (url_mapping s)"
      by (auto simp: cache_coherent_def)
    with Some show ?thesis by (simp add: get_url_mapping_def)
  qed
  then show "cache_coherent (snd (get_url_mapping code s))"
    using assms
    by (auto simp: get_url_mapping_def cache_coherent_def Let_def
             split: option.splits dest!: in_set_takeD)
qed

lemma shorten_url_no_url:
  "req_long_url data = None \<or> req_long_url data = Some [] \<Longrightarrow>
   shorten_url rnd now data s = Some (Inr ((JsonError ''No URL provided'', 400), s))"
  by (auto simp: shorten_url_def)

lemma shorten_url_created:
  assumes "req_long_url data = Some url" "url \<noteq> []"
    and "allocate_key rnd now s = Some (Inr (code, s1))"
    and "\<not> timedelta_overflows (case req_expires_in_days data of None \<Rightarrow> 365 | Some n \<Rightarrow> n)"
    and "\<not> datetime_overflows (now + timedelta_days
           (case req_expires_in_days data of None \<Rightarrow> 365 | Some n \<Rightarrow> n))"
  shows "shorten_url rnd now data s =
    Some (Inr ((JsonShortened (BASE_URL @ code) url
                  (Isoformat (now + timedelta_days
                     (case req_expires_in_days data of None \<Rightarrow> 365 | Some n \<Rightarrow> n))), 201),
               s1\<lparr>url_mapping := url_mapping s @
                     [\<lparr>doc_id = next_id (map doc_id (url_mapping s)), doc_short_code = code,
                       long_url = url,
                       expires_at = Some (now + timedelta_days
                         (case req_expires_in_days data of None \<Rightarrow> 365 | Some n \<Rightarrow> n))\<rparr>],
                  cache := []\<rparr>))"
  using assms allocate_key_frame [OF assms(3)]
  by (simp add: shorten_url_def Let_def insert_one_def invalidate_cache_def)

lemma shorten_url_cases:
  assumes "shorten_url rnd now data s = Some (Inr (resp, s'))"
  shows "(resp = (JsonError ''No URL provided'', 400) \<and> s' = s) \<or>
         (\<exists>url code s1. req_long_url data = Some url \<and> url \<noteq> [] \<and>
            allocate_key rnd now s = Some (Inr (code, s1)) \<and>
            \<not> timedelta_overflows
                (case req_expires_in_days data of None \<Rightarrow> 365 | Some n \<Rightarrow> n) \<and>
            \<not> datetime_overflows (now + timedelta_days
                (case req_expires_in_days data of None \<Rightarrow> 365 | Some n \<Rightarrow> n)))"
  using assms
  by (auto simp: shorten_url_def Let_def split: option.splits if_splits sum.splits)

lemma shorten_url_overflow:
  assumes "req_long_url data = Some url" "url \<noteq> []"
    and "timedelta_overflows (case req_expires_in_days data of None \<Rightarrow> 365 | Some n \<Rightarrow> n) \<or>
         datetime_overflows (now + timedelta_days
           (case req_expires_in_days data of None \<Rightarrow> 365 | Some n \<Rightarrow> n))"
  shows "shorten_url rnd now data s = Some (Inl OverflowError)"
  using assms by (auto simp: shorten_url_def Let_def)


lemma allocate_key_returns:
  assumes "(\<exists>e\<in>set (key_pool s). \<not> used e) \<or>
           (\<exists>k. candidate rnd (rng_pos s) k \<notin> codes (key_pool s))"
  shows "\<exists>code s1. allocate_key rnd now s = Some (Inr (code, s1))"
proof (cases "List.find (\<lambda>e. \<not> used e) (key_pool s)")
  case (Some e)
  then show ?thesis by (auto dest: allocate_key_free)
next
  case None
  then have "\<not> (\<exists>e\<in>set (key_pool s). \<not> used e)"
    by (simp add: find_None_iff)
  with assms obtain k0 where "candidate rnd (rng_pos s) k0 \<notin> codes (key_pool s)"
    by blast
  then obtain k where "candidate rnd (rng_pos s) k \<notin> codes (key_pool s)"
      "\<forall>j<k. candidate rnd (rng_pos s) j \<in> codes (key_pool s)"
    using exists_least_iff [of "\<lambda>k. candidate rnd (rng_pos s) k \<notin> codes (key_pool s)"] by auto
  with None show ?thesis by (auto dest: allocate_key_first_fresh)
qed

text \<open>The examples, evaluated.\<close>

lemma allocate_free_world:
  "allocate_key rnd now free_world =
     Some (Inr (''Zk3m9QpX'',
       \<lparr>key_pool = [\<lparr>kp_id = 1, short_code = ''aaaaaaaa'', used = True, created_at = 0\<rparr>,
                    \<lparr>kp_id = 2, short_code = ''Zk3m9QpX'', used = True, created_at = 0\<rparr>],
        url_mapping = [], cache = [], rng_pos = 0\<rparr>))"
proof -
  have "List.find (\<lambda>e. \<not> used e) (key_pool free_world) =
      Some \<lparr>kp_id = 2, short_code = ''Zk3m9QpX'', used = False, created_at = 0\<rparr>"
    by (simp add: free_world_def)
  from allocate_key_free [OF this, of rnd now] show ?thesis
    by (simp add: free_world_def set_used_def)
qed

lemma shorten_free_world:
  "shorten_url rnd 1000 req30 free_world =
     Some (Inr ((JsonShortened ''http://localhost:5000/Zk3m9QpX'' ''http://example.com''
                   (Isoformat 2592000001000), 201), created_world))"
proof -
  have u: "req_long_url req30 = Some ''http://example.com''" "''http://example.com'' \<noteq> []"
    by (simp_all add: req30_def)
  have r: "\<not> timedelta_overflows (case req_expires_in_days req30 of None \<Rightarrow> 365 | Some n \<Rightarrow> n)"
      "\<not> datetime_overflows (1000 + timedelta_days
          (case req_expires_in_days req30 of None \<Rightarrow> 365 | Some n \<Rightarrow> n))"
    by (simp_all add: req30_def timedelta_overflows_def datetime_overflows_def
          datetime_min_def datetime_max_def timedelta_days_def)
  from shorten_url_created
    [where data = req30 and rnd = rnd and now = 1000 and s = free_world,
     OF u allocate_free_world r]
  show ?thesis
    by (simp add: req30_def free_world_def created_world_def BASE_URL_def timedelta_days_def
          next_id_def)
qed


lemma coherent_sweep_world: "cache_coherent sweep_world"
  by (simp add: cache_coherent_def sweep_world_def get_url_mapping_wrapped_def find_one_def)

subsection \<open>Invalidation\<close>




subsection \<open>Resolving a code\<close>

text \<open>
  C5: \<open>GET /<short_code>\<close> gives one of three answers, decided by the lookup: 404 when it
  yields no mapping; 410 when it yields a mapping whose \<open>expires_at\<close> is before now; and
  otherwise, also for a mapping that never expires, a 302 redirect to the long URL of
  the mapping. So a mapping whose \<open>expires_at\<close> is in the past is never answered with a
  redirect. No answer changes the key pool or the collection; the lookup records its
  result in the cache, as \<open>lru_cache\<close> does. When the cache agrees with the collection,
  the lookup yields what the collection holds for the code, and the cache agrees with
  the collection afterwards.
\<close>

theorem redirect_short_url_outcomes:
  "(case redirect_short_url code now s of
      (resp, s') \<Rightarrow>
        key_pool s' = key_pool s \<and> url_mapping s' = url_mapping s \<and> rng_pos s' = rng_pos s \<and>
        (case fst (get_url_mapping code s) of
           None \<Rightarrow> resp = (JsonError ''Short URL not found'', 404)
         | Some (url, exp) \<Rightarrow>
             (case exp of
                None \<Rightarrow> resp = (Redirect url, 302)
              | Some t \<Rightarrow>
                  if t < now then resp = (JsonError ''URL expired'', 410)
                  else resp = (Redirect url, 302))) \<and>
        (cache_coherent s \<longrightarrow>
           fst (get_url_mapping code s) = get_url_mapping_wrapped code (url_mapping s) \<and>
           cache_coherent s'))"
proof -
  obtain m s1 where g: "get_url_mapping code s = (m, s1)"
    by (cases "get_url_mapping code s")
  from get_url_mapping_frame [of code s] g
  have fr: "key_pool s1 = key_pool s" "url_mapping s1 = url_mapping s" "rng_pos s1 = rng_pos s"
    by simp_all
  have co: "cache_coherent s \<longrightarrow>
      m = get_url_mapping_wrapped code (url_mapping s) \<and> cache_coherent s1"
    using get_url_mapping_coherent [of s code] g by simp
  show ?thesis
    using fr co
    by (cases m) (auto simp: redirect_short_url_def g split: option.splits if_splits)
qed

text \<open>C5 at work: an unknown code, an expired mapping and a live one, at time 150.\<close>

theorem redirect_short_url_outcomes_witness:
  "cache_coherent sweep_world \<and>
   fst (redirect_short_url ''nothere0'' 150 sweep_world) =
     (JsonError ''Short URL not found'', 404) \<and>
   fst (redirect_short_url ''aaaaaaaa'' 150 sweep_world) = (JsonError ''URL expired'', 410) \<and>
   url_mapping (snd (redirect_short_url ''aaaaaaaa'' 150 sweep_world)) = url_mapping sweep_world \<and>
   key_pool (snd (redirect_short_url ''aaaaaaaa'' 150 sweep_world)) = key_pool sweep_world \<and>
   fst (redirect_short_url ''Zk3m9QpX'' 150 sweep_world) = (Redirect ''http://example.org'', 302)"
proof -
  note co = coherent_sweep_world
  have w: "get_url_mapping_wrapped ''nothere0'' (url_mapping sweep_world) = None"
      "get_url_mapping_wrapped ''aaaaaaaa'' (url_mapping sweep_world) =
         Some (''http://example.com'', Some 100)"
      "get_url_mapping_wrapped ''Zk3m9QpX'' (url_mapping sweep_world) =
         Some (''http://example.org'', Some 200)"
    by (simp_all add: get_url_mapping_wrapped_def find_one_def sweep_world_def)
  from redirect_short_url_outcomes [where code = "''nothere0''" and now = 150 and s = sweep_world] co w(1)
  have a: "fst (redirect_short_url ''nothere0'' 150 sweep_world) =
     (JsonError ''Short URL not found'', 404)"
    by (auto split: prod.splits)
  from redirect_short_url_outcomes [where code = "''aaaaaaaa''" and now = 150 and s = sweep_world] co w(2)
  have b: "fst (redirect_short_url ''aaaaaaaa'' 150 sweep_world) = (JsonError ''URL expired'', 410)"
    "url_mapping (snd (redirect_short_url ''aaaaaaaa'' 150 sweep_world)) = url_mapping sweep_world"
    "key_pool (snd (redirect_short_url ''aaaaaaaa'' 150 sweep_world)) = key_pool sweep_world"
    by (auto split: prod.splits)
  from redirect_short_url_outcomes [where code = "''Zk3m9QpX''" and now = 150 and s = sweep_world] co w(3)
  have c: "fst (redirect_short_url ''Zk3m9QpX'' 150 sweep_world) =
     (Redirect ''http://example.org'', 302)"
    by (auto split: prod.splits)
  from co a b c show ?thesis by simp
qed

text \<open>
  C10: the expiry check is strict. For a mapping found with expiry \<open>t\<close>, the answer is 410
  exactly when now is after \<open>t\<close>; at \<open>now = t\<close> it is the 302 redirect; and a mapping
  without expiry is never answered with 410.
\<close>

theorem redirect_expiry_is_strict:
  assumes "fst (get_url_mapping code s) = Some (url, exp)"
  shows "(snd (fst (redirect_short_url code now s)) = 410 \<longleftrightarrow> (\<exists>t. exp = Some t \<and> t < now)) \<and>
         (exp = Some now \<longrightarrow> fst (redirect_short_url code now s) = (Redirect url, 302)) \<and>
         (exp = None \<longrightarrow> fst (redirect_short_url code now s) = (Redirect url, 302))"
proof -
  obtain s1 where g: "get_url_mapping code s = (Some (url, exp), s1)"
    using assms by (cases "get_url_mapping code s") auto
  show ?thesis
    by (cases exp) (simp_all add: redirect_short_url_def g)
qed

text \<open>C10 at work: the mapping that expires at 100, resolved at 100, at 101 and at 99.\<close>

theorem redirect_expiry_is_strict_witness:
  "fst (get_url_mapping ''aaaaaaaa'' sweep_world) = Some (''http://example.com'', Some 100) \<and>
   fst (redirect_short_url ''aaaaaaaa'' 100 sweep_world) = (Redirect ''http://example.com'', 302) \<and>
   snd (fst (redirect_short_url ''aaaaaaaa'' 101 sweep_world)) = 410 \<and>
   snd (fst (redirect_short_url ''aaaaaaaa'' 99 sweep_world)) \<noteq> 410"
proof -
  have h: "fst (get_url_mapping ''aaaaaaaa'' sweep_world) = Some (''http://example.com'', Some 100)"
    by (simp add: get_url_mapping_def sweep_world_def)
  from redirect_expiry_is_strict [OF h, where now = 100]
    redirect_expiry_is_strict [OF h, where now = 101]
    redirect_expiry_is_strict [OF h, where now = 99] h
  show ?thesis by simp
qed


subsection \<open>Creating a mapping\<close>

text \<open>
  C6, as the specification states it, promises the 201 for every body with a \<open>long_url\<close>.
  Line 138 adds the days to the clock first: ten million days from now is past the year
  9999, the sum raises \<open>OverflowError\<close>, and the request ends there, with nothing
  allocated and nothing stored.
\<close>

theorem shorten_url_overflow_counterexample:
  "req_long_url req_far = Some ''http://example.com'' \<and>
   req_expires_in_days req_far = Some 10000000 \<and>
   shorten_url stuck_rnd 1000 req_far free_world = Some (Inl OverflowError)"
proof -
  have "datetime_overflows (1000 + timedelta_days 10000000)"
    by (simp add: datetime_overflows_def datetime_max_def timedelta_days_def)
  then have "shorten_url stuck_rnd 1000 req_far free_world = Some (Inl OverflowError)"
    by (intro shorten_url_overflow [where url = "''http://example.com''"])
       (simp_all add: req_far_def)
  then show ?thesis by (simp add: req_far_def)
qed

text \<open>
  C6 (amended): without a \<open>long_url\<close> in the body (the key absent, or its string empty)
  \<open>POST /shorten\<close> answers 400 and the state is as before: no row allocated, no mapping
  stored, the cache untouched. With a \<open>long_url\<close>, and with \<open>expires_in_days\<close> (365 when
  absent) of at most 999999999 days either way and \<open>now + expires_in_days\<close> days a date
  of the years 1 to 9999, it takes the code that \<open>allocate_key\<close> returns, stores the
  mapping with \<open>expires_at = now + expires_in_days\<close> days, empties the cache and answers
  201 with the short URL, the long URL and the ISO form of \<open>expires_at\<close>. As in C2,
  \<open>allocate_key\<close> returns when a free row exists or some attempt draws a code that the
  table does not hold.
\<close>

theorem shorten_url_creates:
  "(req_long_url data = None \<or> req_long_url data = Some [] \<longrightarrow>
      shorten_url rnd now data s = Some (Inr ((JsonError ''No URL provided'', 400), s))) \<and>
   (let days = (case req_expires_in_days data of None \<Rightarrow> 365 | Some n \<Rightarrow> n);
        exp = now + days * 86400000000
    in req_long_url data = Some url \<and> url \<noteq> [] \<and>
       \<not> timedelta_overflows days \<and> \<not> datetime_overflows exp \<and>
       ((\<exists>e\<in>set (key_pool s). \<not> used e) \<or>
        (\<exists>k. candidate rnd (rng_pos s) k \<notin> codes (key_pool s))) \<longrightarrow>
         (\<exists>code s1.
            allocate_key rnd now s = Some (Inr (code, s1)) \<and>
            shorten_url rnd now data s =
              Some (Inr ((JsonShortened (BASE_URL @ code) url (Isoformat exp), 201),
                         s1\<lparr>url_mapping := url_mapping s @
                               [\<lparr>doc_id = next_id (map doc_id (url_mapping s)),
                                 doc_short_code = code, long_url = url,
                                 expires_at = Some exp\<rparr>],
                            cache := []\<rparr>))))"
proof (rule conjI)
  show "req_long_url data = None \<or> req_long_url data = Some [] \<longrightarrow>
      shorten_url rnd now data s = Some (Inr ((JsonError ''No URL provided'', 400), s))"
    using shorten_url_no_url [of data rnd now s] by blast
next
  define days where "days = (case req_expires_in_days data of None \<Rightarrow> 365 | Some n \<Rightarrow> n)"
  have "\<exists>code s1.
            allocate_key rnd now s = Some (Inr (code, s1)) \<and>
            shorten_url rnd now data s =
              Some (Inr ((JsonShortened (BASE_URL @ code) url
                            (Isoformat (now + days * 86400000000)), 201),
                         s1\<lparr>url_mapping := url_mapping s @
                               [\<lparr>doc_id = next_id (map doc_id (url_mapping s)),
                                 doc_short_code = code, long_url = url,
                                 expires_at = Some (now + days * 86400000000)\<rparr>],
                            cache := []\<rparr>))"
    if a: "req_long_url data = Some url \<and> url \<noteq> [] \<and>
       \<not> timedelta_overflows days \<and> \<not> datetime_overflows (now + days * 86400000000) \<and>
       ((\<exists>e\<in>set (key_pool s). \<not> used e) \<or>
        (\<exists>k. candidate rnd (rng_pos s) k \<notin> codes (key_pool s)))"
  proof -
    from a obtain code s1 where al: "allocate_key rnd now s = Some (Inr (code, s1))"
      using allocate_key_returns [of s rnd now] by blast
    from a have u: "req_long_url data = Some url" "url \<noteq> []" by simp_all
    from a have r: "\<not> timedelta_overflows
          (case req_expires_in_days data of None \<Rightarrow> 365 | Some n \<Rightarrow> n)"
        "\<not> datetime_overflows (now + timedelta_days
          (case req_expires_in_days data of None \<Rightarrow> 365 | Some n \<Rightarrow> n))"
      by (simp_all add: days_def timedelta_days_def)
    from shorten_url_created [OF u al r] al show ?thesis
      by (simp add: days_def timedelta_days_def)
  qed
  then show "let days = (case req_expires_in_days data of None \<Rightarrow> 365 | Some n \<Rightarrow> n);
        exp = now + days * 86400000000
    in req_long_url data = Some url \<and> url \<noteq> [] \<and>
       \<not> timedelta_overflows days \<and> \<not> datetime_overflows exp \<and>
       ((\<exists>e\<in>set (key_pool s). \<not> used e) \<or>
        (\<exists>k. candidate rnd (rng_pos s) k \<notin> codes (key_pool s))) \<longrightarrow>
         (\<exists>code s1.
            allocate_key rnd now s = Some (Inr (code, s1)) \<and>
            shorten_url rnd now data s =
              Some (Inr ((JsonShortened (BASE_URL @ code) url (Isoformat exp), 201),
                         s1\<lparr>url_mapping := url_mapping s @
                               [\<lparr>doc_id = next_id (map doc_id (url_mapping s)),
                                 doc_short_code = code, long_url = url,
                                 expires_at = Some exp\<rparr>],
                            cache := []\<rparr>)))"
    unfolding Let_def days_def by blast
qed

text \<open>
  The amended C6 at work: a body without \<open>long_url\<close>, and one without \<open>expires_in_days\<close>,
  whose 365 days from time 1000 are in range.
\<close>

theorem shorten_url_creates_witness:
  "shorten_url stuck_rnd 1000 req_no_url free_world =
     Some (Inr ((JsonError ''No URL provided'', 400), free_world)) \<and>
   req_long_url req_default = Some ''http://example.com'' \<and>
   req_expires_in_days req_default = None \<and>
   \<not> timedelta_overflows 365 \<and>
   \<not> datetime_overflows (1000 + 365 * 86400000000) \<and>
   (\<exists>e\<in>set (key_pool free_world). \<not> used e) \<and>
   (\<exists>code s1. allocate_key stuck_rnd 1000 free_world = Some (Inr (code, s1)) \<and>
      shorten_url stuck_rnd 1000 req_default free_world =
        Some (Inr ((JsonShortened (BASE_URL @ code) ''http://example.com''
                      (Isoformat (1000 + 365 * 86400000000)), 201),
                   s1\<lparr>url_mapping :=
                         [\<lparr>doc_id = 1, doc_short_code = code, long_url = ''http://example.com'',
                           expires_at = Some (1000 + 365 * 86400000000)\<rparr>],
                      cache := []\<rparr>)))"
proof -
  have n: "req_long_url req_no_url = None \<or> req_long_url req_no_url = Some []"
    by (simp add: req_no_url_def)
  have d: "req_long_url req_default = Some ''http://example.com''"
      "req_expires_in_days req_default = None"
    by (simp_all add: req_default_def)
  have r: "\<not> timedelta_overflows 365" "\<not> datetime_overflows (1000 + 365 * 86400000000)"
    by (simp_all add: timedelta_overflows_def datetime_overflows_def datetime_min_def
          datetime_max_def)
  have f: "\<exists>e\<in>set (key_pool free_world). \<not> used e"
    by (simp add: free_world_def)
  have a: "shorten_url stuck_rnd 1000 req_no_url free_world =
     Some (Inr ((JsonError ''No URL provided'', 400), free_world))"
    by (rule shorten_url_creates
        [where data = req_no_url and rnd = stuck_rnd and now = 1000 and s = free_world,
         THEN conjunct1, THEN mp]) (rule n)
  have "\<exists>code s1.
            allocate_key stuck_rnd 1000 free_world = Some (Inr (code, s1)) \<and>
            shorten_url stuck_rnd 1000 req_default free_world =
              Some (Inr ((JsonShortened (BASE_URL @ code) ''http://example.com''
                            (Isoformat (1000 + 365 * 86400000000)), 201),
                         s1\<lparr>url_mapping := url_mapping free_world @
                               [\<lparr>doc_id = next_id (map doc_id (url_mapping free_world)),
                                 doc_short_code = code, long_url = ''http://example.com'',
                                 expires_at = Some (1000 + 365 * 86400000000)\<rparr>],
                            cache := []\<rparr>))"
    using shorten_url_creates
        [where data = req_default and rnd = stuck_rnd and now = 1000 and s = free_world
           and url = "''http://example.com''", THEN conjunct2]
      d r f
    by (simp add: Let_def)
  then have b: "\<exists>code s1. allocate_key stuck_rnd 1000 free_world = Some (Inr (code, s1)) \<and>
      shorten_url stuck_rnd 1000 req_default free_world =
        Some (Inr ((JsonShortened (BASE_URL @ code) ''http://example.com''
                      (Isoformat (1000 + 365 * 86400000000)), 201),
                   s1\<lparr>url_mapping :=
                         [\<lparr>doc_id = 1, doc_short_code = code, long_url = ''http://example.com'',
                           expires_at = Some (1000 + 365 * 86400000000)\<rparr>],
                      cache := []\<rparr>))"
    by (simp add: next_id_def) (simp add: free_world_def)
  from a d r f b show ?thesis by blast
qed

text \<open>
  C9: a \<open>POST /shorten\<close> that answers 201 has added one mapping to the collection, whose
  \<open>expires_at\<close> is set, to the time of the request plus the retention window; any other
  answer leaves the collection as it was. No mapping without expiry comes from this
  route.
\<close>

theorem created_mapping_expires:
  assumes "shorten_url rnd now data s = Some (Inr (resp, s'))"
  shows "if snd resp = 201
         then \<exists>d. url_mapping s' = url_mapping s @ [d] \<and>
                expires_at d =
                  Some (now + timedelta_days
                     (case req_expires_in_days data of None \<Rightarrow> 365 | Some n \<Rightarrow> n))
         else url_mapping s' = url_mapping s"
proof -
  from shorten_url_cases [OF assms] show ?thesis
  proof
    assume "resp = (JsonError ''No URL provided'', 400) \<and> s' = s"
    then show ?thesis by simp
  next
    assume "\<exists>url code s1. req_long_url data = Some url \<and> url \<noteq> [] \<and>
        allocate_key rnd now s = Some (Inr (code, s1)) \<and>
        \<not> timedelta_overflows
            (case req_expires_in_days data of None \<Rightarrow> 365 | Some n \<Rightarrow> n) \<and>
        \<not> datetime_overflows (now + timedelta_days
            (case req_expires_in_days data of None \<Rightarrow> 365 | Some n \<Rightarrow> n))"
    then obtain url code s1 where u: "req_long_url data = Some url" "url \<noteq> []"
        "allocate_key rnd now s = Some (Inr (code, s1))"
        "\<not> timedelta_overflows (case req_expires_in_days data of None \<Rightarrow> 365 | Some n \<Rightarrow> n)"
        "\<not> datetime_overflows (now + timedelta_days (case req_expires_in_days data of None \<Rightarrow> 365 | Some n \<Rightarrow> n))"
      by blast
    from shorten_url_created [OF u] assms show ?thesis by auto
  qed
qed

text \<open>C9 at work: 30 days from time 1000, and a request that creates nothing.\<close>

theorem created_mapping_expires_witness:
  "shorten_url late_rnd 1000 req30 free_world =
     Some (Inr ((JsonShortened ''http://localhost:5000/Zk3m9QpX'' ''http://example.com''
                   (Isoformat 2592000001000), 201), created_world)) \<and>
   (\<exists>d. url_mapping created_world = url_mapping free_world @ [d] \<and>
      expires_at d = Some (1000 + timedelta_days 30)) \<and>
   shorten_url late_rnd 1000 req_no_url free_world =
     Some (Inr ((JsonError ''No URL provided'', 400), free_world))"
proof -
  note a = shorten_free_world [of late_rnd]
  have b: "shorten_url late_rnd 1000 req_no_url free_world =
     Some (Inr ((JsonError ''No URL provided'', 400), free_world))"
    by (rule shorten_url_no_url) (simp add: req_no_url_def)
  from created_mapping_expires [OF a]
  have "\<exists>d. url_mapping created_world = url_mapping free_world @ [d] \<and>
      expires_at d = Some (1000 + timedelta_days 30)"
    by (simp add: req30_def)
  with a b show ?thesis by simp
qed


end
